theory Spec2Isabelle
  imports Main
begin

section \<open>Python primitives used by psft_client.py\<close>

text \<open>
  A Python \<open>str\<close> is a \<^typ>\<open>string\<close>, one \<^typ>\<open>char\<close> per code point (the model's
  alphabet is the code points below 256). Exceptions are values of \<open>py_error\<close>; a
  function that can raise returns \<open>py_error + 'a\<close>, with \<open>Inl\<close> the exception.
\<close>

datatype py_error =
    KeyError string
  | HTTPError int
  | RuntimeError string
  | RequestException string
  | ParseError string

text \<open>\<open>s.rstrip(chars)\<close>: drop every trailing character that occurs in \<open>chars\<close>.\<close>

definition rstrip_chars :: "string \<Rightarrow> string \<Rightarrow> string" where
  "rstrip_chars chars s = rev (dropWhile (\<lambda>c. c \<in> set chars) (rev s))"

text \<open>\<open>sep.join(xs)\<close>.\<close>

fun join :: "string \<Rightarrow> string list \<Rightarrow> string" where
  "join sep [] = []"
| "join sep [x] = x"
| "join sep (x # y # ys) = x @ sep @ join sep (y # ys)"

text \<open>\<open>s.split(sep)\<close> for a one-character separator: always at least one field.\<close>

fun split_char :: "char \<Rightarrow> string \<Rightarrow> string list" where
  "split_char sep [] = [[]]"
| "split_char sep (c # cs) =
     (if c = sep then [] # split_char sep cs
      else (case split_char sep cs of
              [] \<Rightarrow> [[c]]
            | f # fs \<Rightarrow> (c # f) # fs))"

text \<open>\<open>s.split(sep, 1)\<close> for a one-character separator: cut at the first occurrence.\<close>

definition split_once :: "char \<Rightarrow> string \<Rightarrow> string list" where
  "split_once sep s =
     (if sep \<in> set s then [takeWhile (\<lambda>c. c \<noteq> sep) s, tl (dropWhile (\<lambda>c. c \<noteq> sep) s)]
      else [s])"

text \<open>\<open>str(n)\<close> for an \<open>int\<close>, as an f-string renders \<open>{maxrows}\<close> and \<open>{resp.status_code}\<close>.\<close>

definition digit_char :: "nat \<Rightarrow> char" where
  "digit_char d = ''0123456789'' ! d"

fun str_nat :: "nat \<Rightarrow> string" where
  "str_nat n = (if n < 10 then [digit_char n] else str_nat (n div 10) @ [digit_char (n mod 10)])"

declare str_nat.simps [simp del]

definition str_int :: "int \<Rightarrow> string" where
  "str_int i = (if i < 0 then ''-'' @ str_nat (nat (- i)) else str_nat (nat i))"

text \<open>
  \<open>c.isspace()\<close> on the code points below 256, the characters \<open>s.strip()\<close> removes:
  U+0009..U+000D, U+001C..U+0020, U+0085 and U+00A0.
\<close>

definition isspace :: "char \<Rightarrow> bool" where
  "isspace c = (let n = (of_char c :: nat) in
     (9 \<le> n \<and> n \<le> 13) \<or> (28 \<le> n \<and> n \<le> 32) \<or> n = 133 \<or> n = 160)"

definition strip :: "string \<Rightarrow> string" where
  "strip s = rev (dropWhile isspace (rev (dropWhile isspace s)))"

text \<open>
  A \<open>dict\<close> with string keys keeps its items in insertion order: an association list
  whose keys are distinct. \<open>d[k] = v\<close> overwrites in place or appends; \<open>d[k]\<close> raises
  \<open>KeyError\<close> on a missing key; \<open>d.keys()\<close> lists the keys in order.
\<close>

type_synonym 'v py_dict = "(string \<times> 'v) list"

definition dict_keys :: "'v py_dict \<Rightarrow> string list" where
  "dict_keys d = map fst d"

definition dict_getitem :: "'v py_dict \<Rightarrow> string \<Rightarrow> py_error + 'v" where
  "dict_getitem d k = (case map_of d k of None \<Rightarrow> Inl (KeyError k) | Some v \<Rightarrow> Inr v)"

fun dict_setitem :: "'v py_dict \<Rightarrow> string \<Rightarrow> 'v \<Rightarrow> 'v py_dict" where
  "dict_setitem [] k v = [(k, v)]"
| "dict_setitem ((k', v') # d) k v =
     (if k' = k then (k, v) # d else (k', v') # dict_setitem d k v)"

text \<open>\<open>x or ""\<close> for \<open>x\<close> a \<open>str\<close> or \<open>None\<close>: the falsy values are \<open>None\<close> and \<open>""\<close>.\<close>

definition or_empty :: "string option \<Rightarrow> string" where
  "or_empty x = (case x of None \<Rightarrow> [] | Some s \<Rightarrow> (if s \<noteq> [] then s else []))"


section \<open>PeopleSoftClient\<close>

datatype verify_setting = VerifyBool bool | VerifyPath string

record PeopleSoftClient =
  base_url :: string
  auth :: "(string \<times> string) option"
  ps_token :: "string option"
  verify :: verify_setting
  timeout :: int

text \<open>\<open>PeopleSoftClient.__init__\<close>.\<close>

definition PeopleSoftClient_init ::
  "string \<Rightarrow> (string \<times> string) option \<Rightarrow> string option \<Rightarrow> verify_setting \<Rightarrow> int
     \<Rightarrow> PeopleSoftClient" where
  "PeopleSoftClient_init base_url_arg auth_arg ps_token_arg verify_arg timeout_arg =
     \<lparr> base_url = rstrip_chars ''/'' base_url_arg,
       auth = auth_arg,
       ps_token = ps_token_arg,
       verify = verify_arg,
       timeout = timeout_arg \<rparr>"

text \<open>
  The generator \<open>(prompts[k] or "") for k in prompts.keys()\<close>, run over the keys
  \<open>ks\<close>; a prompt value is a \<open>str\<close> or \<open>None\<close>.
\<close>

fun prompt_value_list :: "string option py_dict \<Rightarrow> string list \<Rightarrow> py_error + string list" where
  "prompt_value_list prompts [] = Inr []"
| "prompt_value_list prompts (k # ks) =
     (case dict_getitem prompts k of
        Inl e \<Rightarrow> Inl e
      | Inr v \<Rightarrow>
          (case prompt_value_list prompts ks of
             Inl e \<Rightarrow> Inl e
           | Inr vs \<Rightarrow> Inr (or_empty v # vs)))"

text \<open>\<open>PeopleSoftClient._build_executequery_url\<close>.\<close>

definition build_executequery_url ::
  "PeopleSoftClient \<Rightarrow> string \<Rightarrow> string option py_dict \<Rightarrow> int \<Rightarrow> string \<Rightarrow> string \<Rightarrow> string
     \<Rightarrow> py_error + string" where
  "build_executequery_url self query_name prompts maxrows isconnectedquery security output_path =
     (let path = rstrip_chars ''/''
                   (base_url self @ ''/'' @ security @ ''/'' @ query_name @ ''/'' @ output_path);
          prompt_names = join '','' (dict_keys prompts)
      in case prompt_value_list prompts (dict_keys prompts) of
           Inl e \<Rightarrow> Inl e
         | Inr vs \<Rightarrow>
             (let prompt_values = join '','' vs;
                  query_str = ''isconnectedquery='' @ isconnectedquery
                    @ ''&maxrows='' @ str_int maxrows
                    @ ''&prompt_uniquepromptname='' @ prompt_names
                    @ ''&prompt_fieldvalue='' @ prompt_values
              in Inr (path @ ''?'' @ query_str)))"


section \<open>The HTTP transport\<close>

text \<open>
  \<open>requests.get(url, auth=, cookies=, verify=, timeout=)\<close> is the one effect of the
  client. The network is a state: how the remote end answers a request (a response, or
  an exception of \<open>requests\<close> when none arrives) and the log of the requests sent.
  An \<open>auth\<close> pair is what \<open>requests\<close> sends as HTTP Basic Authentication.
\<close>

record request =
  req_url :: string
  req_auth :: "(string \<times> string) option"
  req_cookies :: "string py_dict"
  req_verify :: verify_setting
  req_timeout :: int

record response =
  status_code :: int
  resp_text :: string

record network =
  respond :: "request \<Rightarrow> py_error + response"
  sent :: "request list"

definition requests_get :: "request \<Rightarrow> network \<Rightarrow> (py_error + response) \<times> network" where
  "requests_get r net = (respond net r, net\<lparr>sent := sent net @ [r]\<rparr>)"

text \<open>
  \<open>Response.raise_for_status()\<close> of \<open>requests\<close>: it raises \<open>HTTPError\<close> for a
  status from 400 to 599 (client and server errors) and returns for every other status.
\<close>

definition raise_for_status :: "response \<Rightarrow> py_error + unit" where
  "raise_for_status resp =
     (if 400 \<le> status_code resp \<and> status_code resp < 500 then Inl (HTTPError (status_code resp))
      else if 500 \<le> status_code resp \<and> status_code resp < 600 then Inl (HTTPError (status_code resp))
      else Inr ())"

text \<open>\<open>PeopleSoftClient.execute_query\<close>.\<close>

definition execute_query ::
  "PeopleSoftClient \<Rightarrow> string \<Rightarrow> string option py_dict \<Rightarrow> int \<Rightarrow> string \<Rightarrow> string \<Rightarrow> string
     \<Rightarrow> network \<Rightarrow> (py_error + string) \<times> network" where
  "execute_query self query_name prompts maxrows isconnectedquery security output_path net =
     (case build_executequery_url self query_name prompts maxrows isconnectedquery security
             output_path of
        Inl e \<Rightarrow> (Inl e, net)
      | Inr url \<Rightarrow>
          (let cookies = (case ps_token self of
                            None \<Rightarrow> []
                          | Some t \<Rightarrow> (if t \<noteq> [] then dict_setitem [] ''PS_TOKEN'' t else []));
               (r, net') = requests_get
                  \<lparr> req_url = url, req_auth = auth self, req_cookies = cookies,
                    req_verify = verify self, req_timeout = timeout self \<rparr> net
           in case r of
                Inl e \<Rightarrow> (Inl e, net')
              | Inr resp \<Rightarrow>
                  (case raise_for_status resp of
                     Inl e \<Rightarrow>
                       (Inl (RuntimeError (''PeopleSoft ExecuteQuery call failed: ''
                               @ str_int (status_code resp) @ [CHR 0x0A] @ resp_text resp)), net')
                   | Inr u \<Rightarrow> (Inr (resp_text resp), net'))))"


section \<open>The row extractor\<close>

text \<open>
  An \<open>Element\<close> of \<open>xml.etree.ElementTree\<close> as the parser hands it over: the
  namespace name of the element (\<open>None\<close> when it is in no namespace), its local name,
  the text before its first child (\<open>None\<close> when there is none), the text after its end
  tag, and its child elements in document order. The parser resolves namespace prefixes:
  \<open>node.tag\<close> is the local name, or \<open>{namespace}local\<close> for a namespaced element.
\<close>

datatype element =
  Element (el_ns: "string option") (el_local: string) (el_text: "string option")
    (el_tail: "string option") (el_children: "element list")

definition tag :: "element \<Rightarrow> string" where
  "tag e = (case el_ns e of None \<Rightarrow> el_local e | Some uri \<Rightarrow> ''{'' @ uri @ ''}'' @ el_local e)"

text \<open>\<open>root.iter()\<close>: the element and all its descendants, in document order.\<close>

fun iter :: "element \<Rightarrow> element list" where
  "iter (Element n l t a cs) = Element n l t a cs # concat (map iter cs)"

text \<open>The local function \<open>strip_ns\<close> of \<open>parse_executequery_xml\<close>.\<close>

definition strip_ns :: "string \<Rightarrow> string" where
  "strip_ns t = (if CHR ''}'' \<in> set t then split_once (CHR ''}'') t ! 1 else t)"

text \<open>
  The inner loop \<open>for child in list(node)\<close>, from the dict built so far, and the outer
  loop \<open>for node in root.iter()\<close>, from the rows appended so far.
\<close>

fun row_fields :: "element list \<Rightarrow> string py_dict \<Rightarrow> string py_dict" where
  "row_fields [] row_dict = row_dict"
| "row_fields (child # cs) row_dict =
     (let field_name = strip_ns (tag child);
          val = strip (or_empty (el_text child))
      in row_fields cs (dict_setitem row_dict field_name val))"

fun collect_rows :: "element list \<Rightarrow> string py_dict list \<Rightarrow> string py_dict list" where
  "collect_rows [] rows = rows"
| "collect_rows (node # nodes) rows =
     (if strip_ns (tag node) = ''row''
      then collect_rows nodes (rows @ [row_fields (el_children node) []])
      else collect_rows nodes rows)"

text \<open>
  \<open>parse_executequery_xml\<close>. The XML parser \<open>ET.fromstring\<close> is the library's: it
  is a parameter, which returns the root element or raises \<open>ParseError\<close>.
\<close>

definition parse_executequery_xml ::
  "(string \<Rightarrow> py_error + element) \<Rightarrow> string \<Rightarrow> py_error + string py_dict list" where
  "parse_executequery_xml fromstring xml_text =
     (case fromstring xml_text of
        Inl e \<Rightarrow> Inl e
      | Inr root \<Rightarrow> Inr (collect_rows (iter root) []))"


section \<open>Notions of the specification\<close>

text \<open>
  The names of an element are XML names and URI references: neither the local name nor
  the namespace name holds a closing brace.
\<close>

definition xml_names_ok :: "element \<Rightarrow> bool" where
  "xml_names_ok e =
     (CHR ''}'' \<notin> set (el_local e) \<and>
      (case el_ns e of None \<Rightarrow> True | Some uri \<Rightarrow> CHR ''}'' \<notin> set uri))"

text \<open>\<open>subelement e root\<close>: \<open>e\<close> is \<open>root\<close> or one of its descendants, at any depth.\<close>

inductive subelement :: "element \<Rightarrow> element \<Rightarrow> bool" where
  self: "subelement root root"
| child: "subelement e c \<Longrightarrow> c \<in> set (el_children p) \<Longrightarrow> subelement e p"

text \<open>
  The text content of an element: all the character data inside it, in document order.
  That is its own leading text, then for each child the text content of the child
  followed by the text after the child.
\<close>

fun spec_text_content :: "element \<Rightarrow> string" where
  "spec_text_content (Element n l t a cs) =
     (case t of None \<Rightarrow> [] | Some s \<Rightarrow> s)
     @ concat (map (\<lambda>c. spec_text_content c @ (case el_tail c of None \<Rightarrow> [] | Some s \<Rightarrow> s)) cs)"




section \<open>Auxiliary notions of the proofs\<close>

text \<open>
  What the inner loop stores for a child whose tag strips to its local name: that name
  and \<open>(child.text or "").strip()\<close>, where \<open>child.text\<close> is the text before the first
  sub-element of the child (not its whole text content).
\<close>

definition child_field :: "element \<Rightarrow> string \<times> string" where
  "child_field c = (el_local c, strip (or_empty (el_text c)))"


section \<open>Example inputs\<close>

definition example_client :: PeopleSoftClient where
  "example_client =
     PeopleSoftClient_init ''https://h/ExecuteQuery.v1'' None None (VerifyBool True) 60"

text \<open>A remote end that answers every request with the given status and body.\<close>

definition example_network :: "int \<Rightarrow> string \<Rightarrow> network" where
  "example_network status body =
     \<lparr> respond = (\<lambda>r. Inr \<lparr> status_code = status, resp_text = body \<rparr>), sent = [] \<rparr>"

text \<open>
  Seven texts, and for those the parser accepts the tree it returns: two rows under a
  namespaced root; a row with a repeated field, a whitespace-only field, an empty field
  and a field with a sub-element; a document without rows; a field with text on both
  sides of a sub-element; a declaration of version 2.0; an unclosed tag; a reference to
  an entity of an external DTD.
\<close>

definition rows_xml :: string where
  \<open>rows_xml = ''<q:resp xmlns:q="urn:ps"><q:query><q:row><q:A>1</q:A><q:B>2</q:B></q:row><q:row><q:A>3</q:A><q:B>4</q:B></q:row></q:query></q:resp>''\<close>

definition rows_doc :: element where
  "rows_doc =
     Element (Some ''urn:ps'') ''resp'' None None
       [Element (Some ''urn:ps'') ''query'' None None
          [Element (Some ''urn:ps'') ''row'' None None
             [Element (Some ''urn:ps'') ''A'' (Some ''1'') None [],
              Element (Some ''urn:ps'') ''B'' (Some ''2'') None []],
           Element (Some ''urn:ps'') ''row'' None None
             [Element (Some ''urn:ps'') ''A'' (Some ''3'') None [],
              Element (Some ''urn:ps'') ''B'' (Some ''4'') None []]]]"

definition repeated_xml :: string where
  "repeated_xml = ''<q><row><A>1</A><B>  '' @ [CHR 0x0A] @ ''  </B><C/><A> 2 <D>9</D></A></row></q>''"

definition repeated_doc :: element where
  "repeated_doc =
     Element None ''q'' None None
       [Element None ''row'' None None
          [Element None ''A'' (Some ''1'') None [],
           Element None ''B'' (Some (''  '' @ [CHR 0x0A] @ ''  '')) None [],
           Element None ''C'' None None [],
           Element None ''A'' (Some '' 2 '') None
             [Element None ''D'' (Some ''9'') None []]]]"

definition norows_xml :: string where
  "norows_xml = ''<q><item>1</item></q>''"

definition norows_doc :: element where
  "norows_doc = Element None ''q'' None None [Element None ''item'' (Some ''1'') None []]"

definition mixed_xml :: string where
  "mixed_xml = ''<q><row><B>a<i>b</i>c</B></row></q>''"

definition mixed_field :: element where
  "mixed_field = Element None ''B'' (Some ''a'') None [Element None ''i'' (Some ''b'') (Some ''c'') []]"

definition mixed_doc :: element where
  "mixed_doc = Element None ''q'' None None [Element None ''row'' None None [mixed_field]]"

definition version2_xml :: string where
  \<open>version2_xml = ''<?xml version="2.0"?><q/>''\<close>

definition version2_doc :: element where
  "version2_doc = Element None ''q'' None None []"

definition malformed_xml :: string where
  "malformed_xml = ''<q><row>''"

definition entity_xml :: string where
  \<open>entity_xml = ''<!DOCTYPE q SYSTEM "q.dtd"><q>&foo;</q>''\<close>

text \<open>
  What \<open>ET.fromstring\<close> of the standard library (CPython 3.11, expat 2.6) answers on
  the seven texts: the tree, or the message of the \<open>ParseError\<close> it raises. The examples
  apply it to these texts only; its value on any other text is left unspecified.
\<close>

definition example_fromstring :: "string \<Rightarrow> py_error + element" where
  "example_fromstring s =
     (if s = rows_xml then Inr rows_doc
      else if s = repeated_xml then Inr repeated_doc
      else if s = norows_xml then Inr norows_doc
      else if s = mixed_xml then Inr mixed_doc
      else if s = version2_xml then Inr version2_doc
      else if s = malformed_xml then Inl (ParseError ''no element found: line 1, column 8'')
      else if s = entity_xml
        then Inl (ParseError ''undefined entity &foo;: line 1, column 30'')
      else undefined)"


section \<open>Strings\<close>

text \<open>
  \<open>rstrip\<close> over a single character: what is removed is a run of that character, what
  is left does not end in it, and a longer run at the end changes nothing.
\<close>

lemma rstrip_replicate:
  "rstrip_chars [c] (core @ replicate m c) = rstrip_chars [c] core"
proof -
  have "dropWhile (\<lambda>x. x \<in> set [c]) (replicate m c @ xs) = dropWhile (\<lambda>x. x \<in> set [c]) xs" for xs
    by (induction m) simp_all
  then show ?thesis by (simp only: rstrip_chars_def rev_append rev_replicate)
qed

lemma all_same_replicate: "\<forall>x \<in> set xs. x = c \<Longrightarrow> xs = replicate (length xs) c"
  by (induction xs) simp_all

lemma rstrip_decomp: "\<exists>k. s = rstrip_chars [c] s @ replicate k c"
proof -
  let ?P = "\<lambda>x. x \<in> set [c]"
  let ?t = "takeWhile ?P (rev s)"
  have "rev (?t @ dropWhile ?P (rev s)) = rev (rev s)"
    by (simp only: takeWhile_dropWhile_id)
  then have s: "s = rstrip_chars [c] s @ rev ?t"
    by (simp only: rstrip_chars_def rev_append rev_rev_ident)
  have "\<forall>x \<in> set (rev ?t). x = c" by (auto dest: set_takeWhileD)
  then have "rev ?t = replicate (length (rev ?t)) c" by (rule all_same_replicate)
  with s show ?thesis by metis
qed

lemma rstrip_no_trailing:
  "rstrip_chars [c] s = [] \<or> last (rstrip_chars [c] s) \<noteq> c"
proof (cases "rstrip_chars [c] s = []")
  case True
  then show ?thesis by simp
next
  case False
  let ?u = "dropWhile (\<lambda>x. x \<in> set [c]) (rev s)"
  from False have u: "?u \<noteq> []" by (simp add: rstrip_chars_def)
  then have "\<not> (hd ?u \<in> set [c])" by (rule hd_dropWhile)
  moreover have "last (rstrip_chars [c] s) = hd ?u" using u by (simp add: rstrip_chars_def last_rev)
  ultimately show ?thesis by simp
qed

lemma set_rstrip_subset: "set (rstrip_chars cs s) \<subseteq> set s"
  using set_dropWhileD by (fastforce simp: rstrip_chars_def)

lemma takeWhile_before_first:
  "c \<notin> set p \<Longrightarrow> takeWhile (\<lambda>x. x \<noteq> c) (p @ c # rest) = p"
  by (induction p) auto


text \<open>Splitting a joined list gives the list back when no field holds the separator.\<close>

lemma split_char_no_sep: "sep \<notin> set x \<Longrightarrow> split_char sep x = [x]"
  by (induction x) auto

lemma split_char_append_sep:
  "sep \<notin> set x \<Longrightarrow> split_char sep (x @ sep # rest) = x # split_char sep rest"
  by (induction x) auto

lemma split_char_join:
  "xs \<noteq> [] \<Longrightarrow> \<forall>x \<in> set xs. sep \<notin> set x \<Longrightarrow> split_char sep (join [sep] xs) = xs"
proof (induction "[sep]" xs rule: join.induct)
  case 1
  then show ?case by simp
next
  case (2 x)
  then show ?case by (simp add: split_char_no_sep)
next
  case (3 x y ys)
  then show ?case by (simp add: split_char_append_sep)
qed

lemma split_char_join_fields:
  assumes "\<forall>x \<in> set xs. sep \<notin> set x"
  shows "split_char sep (join [sep] xs) = (if xs = [] then [[]] else xs)"
  using assms by (simp add: split_char_join)


text \<open>
  \<open>strip\<close> removes whitespace at both ends and nothing else: the result neither starts
  nor ends with whitespace, and the input is the result between two runs of whitespace.
\<close>

lemma dropWhile_all: "\<forall>c \<in> set s. P c \<Longrightarrow> dropWhile P s = []"
  by (induction s) simp_all

lemma strip_all_space: "\<forall>c \<in> set s. isspace c \<Longrightarrow> strip s = []"
  by (simp only: strip_def dropWhile_all rev.simps dropWhile.simps)

lemma last_dropWhile_nonempty: "dropWhile P xs \<noteq> [] \<Longrightarrow> last (dropWhile P xs) = last xs"
  by (induction xs) auto

lemma strip_ends:
  assumes "strip s \<noteq> []"
  shows "\<not> isspace (hd (strip s)) \<and> \<not> isspace (last (strip s))"
proof -
  let ?t = "dropWhile isspace s"
  let ?u = "dropWhile isspace (rev ?t)"
  from assms have u: "?u \<noteq> []" by (simp add: strip_def)
  have t: "?t \<noteq> []"
  proof
    assume "?t = []"
    then have "?u = []" by (simp only: rev.simps dropWhile.simps)
    with u show False by contradiction
  qed
  have "last (strip s) = hd ?u" using u by (simp add: strip_def last_rev)
  moreover have "\<not> isspace (hd ?u)" using u by (rule hd_dropWhile)
  moreover have "hd (strip s) = last ?u" using u by (simp add: strip_def hd_rev)
  moreover have "last ?u = hd ?t" using u t by (simp add: last_dropWhile_nonempty last_rev)
  moreover have "\<not> isspace (hd ?t)" using t by (rule hd_dropWhile)
  ultimately show ?thesis by simp
qed

lemma strip_decomp:
  "\<exists>a b. s = a @ strip s @ b \<and> (\<forall>c \<in> set a. isspace c) \<and> (\<forall>c \<in> set b. isspace c)"
proof -
  let ?t = "dropWhile isspace s"
  let ?a = "takeWhile isspace s"
  let ?b = "rev (takeWhile isspace (rev ?t))"
  have "rev (takeWhile isspace (rev ?t) @ dropWhile isspace (rev ?t)) = rev (rev ?t)"
    by (simp only: takeWhile_dropWhile_id)
  then have "?t = strip s @ ?b" by (simp only: strip_def rev_append rev_rev_ident)
  moreover have "s = ?a @ ?t" by simp
  ultimately have "s = ?a @ strip s @ ?b" by simp
  moreover have "\<forall>c \<in> set ?a. isspace c" by (auto dest: set_takeWhileD)
  moreover have "\<forall>c \<in> set ?b. isspace c" by (auto dest: set_takeWhileD)
  ultimately show ?thesis by blast
qed

lemma or_empty_render: "or_empty x = (case x of None \<Rightarrow> [] | Some s \<Rightarrow> s)"
  by (simp add: or_empty_def split: option.splits)


section \<open>Dictionaries\<close>

lemma map_of_dict_setitem: "map_of (dict_setitem d k v) = (map_of d)(k \<mapsto> v)"
  by (induction d k v rule: dict_setitem.induct) auto

lemma keys_dict_setitem: "fst ` set (dict_setitem d k v) = insert k (fst ` set d)"
  by (induction d k v rule: dict_setitem.induct) auto

lemma set_dict_setitem: "set (dict_setitem d k v) \<subseteq> insert (k, v) (set d)"
  by (induction d k v rule: dict_setitem.induct) auto

lemma distinct_dict_setitem:
  "distinct (map fst d) \<Longrightarrow> distinct (map fst (dict_setitem d k v))"
  by (induction d k v rule: dict_setitem.induct) (auto simp: keys_dict_setitem)

lemma dict_setitem_fresh: "k \<notin> fst ` set d \<Longrightarrow> dict_setitem d k v = d @ [(k, v)]"
  by (induction d k v rule: dict_setitem.induct) auto


section \<open>The URL builder and the request\<close>

text \<open>
  Looking every key of a dict up in the dict itself never raises, and on distinct keys
  it gives the values in order.
\<close>

lemma prompt_value_list_lookup:
  "\<forall>kv \<in> set xs. map_of d (fst kv) = Some (snd kv) \<Longrightarrow>
   prompt_value_list d (map fst xs) = Inr (map (\<lambda>kv. or_empty (snd kv)) xs)"
  by (induction xs) (simp_all add: dict_getitem_def)

lemma prompt_value_list_keys:
  assumes "distinct (map fst d)"
  shows "prompt_value_list d (dict_keys d) = Inr (map (\<lambda>kv. or_empty (snd kv)) d)"
  unfolding dict_keys_def using assms by (intro prompt_value_list_lookup) simp

lemma prompt_value_list_total:
  "set ks \<subseteq> fst ` set d \<Longrightarrow> \<exists>vs. prompt_value_list d ks = Inr vs"
proof (induction ks)
  case Nil
  then show ?case by simp
next
  case (Cons k ks)
  then obtain vs where vs: "prompt_value_list d ks = Inr vs" by auto
  from Cons.prems have "k \<in> fst ` set d" by simp
  then obtain v where "map_of d k = Some v"
    by (metis domD dom_map_of_conv_image_fst)
  with vs show ?case by (simp add: dict_getitem_def)
qed

lemma build_executequery_url_distinct:
  assumes "distinct (map fst prompts)"
  shows "build_executequery_url self q prompts m icq sec out =
     Inr (rstrip_chars ''/'' (base_url self @ ''/'' @ sec @ ''/'' @ q @ ''/'' @ out)
          @ ''?'' @ ''isconnectedquery='' @ icq @ ''&maxrows='' @ str_int m
          @ ''&prompt_uniquepromptname='' @ join '','' (map fst prompts)
          @ ''&prompt_fieldvalue='' @ join '','' (map (\<lambda>kv. or_empty (snd kv)) prompts))"
  by (simp add: build_executequery_url_def prompt_value_list_keys [OF assms] Let_def)
    (simp add: dict_keys_def)

lemma build_executequery_url_total:
  "\<exists>rest. build_executequery_url self q prompts m icq sec out =
     Inr (rstrip_chars ''/'' (base_url self @ ''/'' @ sec @ ''/'' @ q @ ''/'' @ out) @ ''?'' @ rest)"
proof -
  obtain vs where "prompt_value_list prompts (dict_keys prompts) = Inr vs"
    using prompt_value_list_total [of "dict_keys prompts" prompts] by (auto simp: dict_keys_def)
  then show ?thesis by (simp add: build_executequery_url_def Let_def)
qed


text \<open>The one request \<open>execute_query\<close> sends, and what it makes of the response.\<close>

lemma execute_query_sent:
  assumes "build_executequery_url self q prompts m icq sec out = Inr url"
  shows "sent (snd (execute_query self q prompts m icq sec out net)) =
     sent net @ [\<lparr> req_url = url, req_auth = auth self,
                   req_cookies = (case ps_token self of None \<Rightarrow> []
                                  | Some t \<Rightarrow> if t = [] then [] else [(''PS_TOKEN'', t)]),
                   req_verify = verify self, req_timeout = timeout self \<rparr>]"
  using assms
  by (simp add: execute_query_def requests_get_def Let_def
      split: option.splits sum.splits prod.splits)

lemma execute_query_result:
  assumes "build_executequery_url self query_name prompts maxrows isconnectedquery security
             output_path = Inr url"
      and "respond net \<lparr> req_url = url, req_auth = auth self,
             req_cookies = (case ps_token self of None \<Rightarrow> []
                            | Some t \<Rightarrow> if t = [] then [] else [(''PS_TOKEN'', t)]),
             req_verify = verify self, req_timeout = timeout self \<rparr> = Inr resp"
  shows "fst (execute_query self query_name prompts maxrows isconnectedquery security
                output_path net)
       = (if 400 \<le> status_code resp \<and> status_code resp < 600
          then Inl (RuntimeError (''PeopleSoft ExecuteQuery call failed: ''
                  @ str_int (status_code resp) @ [CHR 0x0A] @ resp_text resp))
          else Inr (resp_text resp))"
  using assms
  by (auto simp: execute_query_def requests_get_def raise_for_status_def Let_def
      split: option.splits)

lemma execute_query_raises_on_status_500:
  "fst (execute_query example_client ''Q'' [] 10 ''N'' ''public'' ''XMLP/NONFILE''
          (example_network 500 ''ORA-12345''))
   = Inl (RuntimeError (''PeopleSoft ExecuteQuery call failed: 500'' @ [CHR 0x0A] @ ''ORA-12345''))"
  by (simp add: execute_query_def build_executequery_url_def example_client_def
      PeopleSoftClient_init_def example_network_def requests_get_def raise_for_status_def
      dict_keys_def str_int_def str_nat.simps digit_char_def Let_def)


section \<open>The element tree\<close>

text \<open>Stripping the namespace from a tag in Clark notation leaves the local name.\<close>

lemma dropWhile_neq_first:
  "c \<notin> set u \<Longrightarrow> dropWhile (\<lambda>x. x \<noteq> c) (u @ c # l) = c # l"
  by (induction u) auto

lemma strip_ns_Clark: 
  assumes "CHR ''}'' \<notin> set uri"
  shows "strip_ns (CHR ''{'' # uri @ CHR ''}'' # l) = l"
  using assms dropWhile_neq_first [of "CHR ''}''" "CHR ''{'' # uri" l]
  by (simp add: strip_ns_def split_once_def)

lemma strip_ns_plain: "CHR ''}'' \<notin> set l \<Longrightarrow> strip_ns l = l"
  by (simp add: strip_ns_def)

lemma strip_ns_tag: "xml_names_ok e \<Longrightarrow> strip_ns (tag e) = el_local e"
  by (cases "el_ns e") (simp_all add: xml_names_ok_def tag_def strip_ns_Clark strip_ns_plain)


text \<open>\<open>iter\<close> lists exactly the element and its descendants.\<close>

lemma iter_self: "e \<in> set (iter e)"
  by (cases e) simp

lemma iter_child: "c \<in> set (el_children p) \<Longrightarrow> set (iter c) \<subseteq> set (iter p)"
  by (cases p) auto

lemma subelement_iter: "subelement e root \<Longrightarrow> e \<in> set (iter root)"
  by (induction rule: subelement.induct) (use iter_self iter_child in blast)+

lemma iter_subelement: "e \<in> set (iter root) \<Longrightarrow> subelement e root"
proof (induction root arbitrary: e rule: iter.induct)
  case (1 n l t a cs)
  show ?case
  proof (cases "e = Element n l t a cs")
    case True
    then show ?thesis by (simp add: subelement.self)
  next
    case False
    with "1.prems" obtain c where c: "c \<in> set cs" "e \<in> set (iter c)" by auto
    then have "subelement e c" using "1.IH" by blast
    then show ?thesis using c(1) by (auto intro: subelement.child)
  qed
qed

lemma set_iter: "set (iter root) = {e. subelement e root}"
  using subelement_iter iter_subelement by blast

lemma subelement_of_child:
  "subelement node root \<Longrightarrow> c \<in> set (el_children node) \<Longrightarrow> subelement c root"
  by (induction rule: subelement.induct) (auto intro: subelement.intros)

lemma iter_children:
  assumes "node \<in> set (iter root)"
  shows "set (el_children node) \<subseteq> set (iter root)"
  using assms subelement_of_child unfolding set_iter by blast


text \<open>The two loops as a filter and a fold over the children.\<close>

lemma collect_rows_filter:
  "collect_rows nodes rows =
     rows @ map (\<lambda>node. row_fields (el_children node) [])
                (filter (\<lambda>node. strip_ns (tag node) = ''row'') nodes)"
  by (induction nodes arbitrary: rows) simp_all

lemma filter_row_names:
  assumes "\<forall>e \<in> set nodes. xml_names_ok e"
  shows "filter (\<lambda>node. strip_ns (tag node) = ''row'') nodes
       = filter (\<lambda>e. el_local e = ''row'') nodes"
  using assms by (intro filter_cong) (simp_all add: strip_ns_tag)

lemma row_nodes_ok:
  assumes "list_all xml_names_ok (iter root)"
      and "node \<in> set (filter (\<lambda>e. el_local e = ''row'') (iter root))"
  shows "\<forall>c \<in> set (el_children node). xml_names_ok c"
proof -
  from assms(2) have "node \<in> set (iter root)" by simp
  then have "set (el_children node) \<subseteq> set (iter root)" by (rule iter_children)
  with assms(1) show ?thesis by (auto simp: list_all_iff)
qed

lemma parse_executequery_xml_rows':
  assumes "fromstring xml_text = Inr root" and "list_all xml_names_ok (iter root)"
  shows "parse_executequery_xml fromstring xml_text =
     Inr (map (\<lambda>node. row_fields (el_children node) [])
            (filter (\<lambda>e. el_local e = ''row'') (iter root)))"
  using assms
  by (simp add: parse_executequery_xml_def collect_rows_filter filter_row_names list_all_iff)

lemma row_fields_step:
  "xml_names_ok c \<Longrightarrow>
   row_fields (c # cs) d = row_fields cs (dict_setitem d (fst (child_field c)) (snd (child_field c)))"
  by (simp add: strip_ns_tag child_field_def)

lemma row_fields_map_of:
  "\<forall>c \<in> set cs. xml_names_ok c \<Longrightarrow>
   map_of (row_fields cs d) = map_of d ++ map_of (rev (map child_field cs))"
proof (induction cs arbitrary: d)
  case Nil
  then show ?case by simp
next
  case (Cons c cs)
  have ok: "xml_names_ok c" "\<forall>a \<in> set cs. xml_names_ok a" using Cons.prems by simp_all
  have "map_of (row_fields (c # cs) d)
      = (map_of d)(fst (child_field c) \<mapsto> snd (child_field c)) ++ map_of (rev (map child_field cs))"
    by (simp only: row_fields_step [OF ok(1)] Cons.IH [OF ok(2)] map_of_dict_setitem)
  also have "\<dots> = map_of d ++ map_of (rev (map child_field (c # cs)))"
    by (simp add: map_add_upd_left)
  finally show ?case .
qed

lemma row_fields_keys:
  "\<forall>c \<in> set cs. xml_names_ok c \<Longrightarrow>
   fst ` set (row_fields cs d) = fst ` set d \<union> el_local ` set cs"
proof (induction cs arbitrary: d)
  case Nil
  then show ?case by simp
next
  case (Cons c cs)
  have ok: "xml_names_ok c" "\<forall>a \<in> set cs. xml_names_ok a" using Cons.prems by simp_all
  have "fst ` set (row_fields (c # cs) d)
      = fst ` set (dict_setitem d (fst (child_field c)) (snd (child_field c))) \<union> el_local ` set cs"
    by (simp only: row_fields_step [OF ok(1)] Cons.IH [OF ok(2)])
  then show ?case by (simp add: keys_dict_setitem child_field_def)
qed

lemma row_fields_entries:
  "\<forall>c \<in> set cs. xml_names_ok c \<Longrightarrow>
   \<forall>kv \<in> set (row_fields cs d). kv \<in> set d \<or> (\<exists>c \<in> set cs. kv = child_field c)"
proof (induction cs arbitrary: d)
  case Nil
  then show ?case by simp
next
  case (Cons c cs)
  have ok: "xml_names_ok c" "\<forall>a \<in> set cs. xml_names_ok a" using Cons.prems by simp_all
  let ?d = "dict_setitem d (fst (child_field c)) (snd (child_field c))"
  have step: "row_fields (c # cs) d = row_fields cs ?d" by (rule row_fields_step [OF ok(1)])
  have "\<forall>kv \<in> set (row_fields cs ?d). kv \<in> set ?d \<or> (\<exists>c \<in> set cs. kv = child_field c)"
    by (rule Cons.IH [OF ok(2)])
  moreover have "set ?d \<subseteq> insert (child_field c) (set d)"
    using set_dict_setitem [of d "fst (child_field c)" "snd (child_field c)"] by simp
  ultimately show ?case unfolding step by auto
qed

lemma row_fields_distinct:
  "distinct (map fst d) \<Longrightarrow> distinct (map fst (row_fields cs d))"
  by (induction cs arbitrary: d) (simp_all add: distinct_dict_setitem Let_def)

lemma row_fields_fresh:
  "\<forall>c \<in> set cs. xml_names_ok c \<Longrightarrow> distinct (map el_local cs) \<Longrightarrow>
   el_local ` set cs \<inter> fst ` set d = {} \<Longrightarrow>
   row_fields cs d = d @ map child_field cs"
proof (induction cs arbitrary: d)
  case Nil
  then show ?case by simp
next
  case (Cons c cs)
  have fresh: "el_local c \<notin> fst ` set d" using Cons.prems(3) by auto
  have "row_fields (c # cs) d = row_fields cs (d @ [child_field c])"
    using Cons.prems(1) fresh
    by (simp only: row_fields_step list.set insert_iff simp_thms)
       (simp add: dict_setitem_fresh child_field_def)
  also have "\<dots> = (d @ [child_field c]) @ map child_field cs"
    using Cons.prems by (intro Cons.IH) (auto simp: child_field_def)
  finally show ?case by simp
qed

lemma row_fields_last_wins:
  assumes "\<forall>c \<in> set (pre @ c # post). xml_names_ok c"
      and "el_local c \<notin> el_local ` set post"
  shows "map_of (row_fields (pre @ c # post) []) (el_local c) = Some (snd (child_field c))"
proof -
  have "map_of (rev (map child_field post)) (el_local c) = None"
    using assms(2) by (force simp: map_of_eq_None_iff child_field_def image_iff)
  then show ?thesis
    using assms(1)
    by (simp add: row_fields_map_of map_add_def child_field_def del: row_fields.simps)
qed

lemma child_field_fun: "child_field = (\<lambda>c. (el_local c, strip (or_empty (el_text c))))"
  by (rule ext) (simp add: child_field_def)

lemma leaf_text_content: "el_children c = [] \<Longrightarrow> or_empty (el_text c) = spec_text_content c"
  by (cases c) (simp add: or_empty_render)

lemma list_all2_map_same: "list_all2 P xs (map f xs) = (\<forall>x \<in> set xs. P x (f x))"
  by (simp add: list_all2_map2 list_all2_same)

lemma list_all2_determined:
  "list_all2 (\<lambda>x y. Q x \<longrightarrow> y = f x) xs ys \<Longrightarrow> list_all Q xs \<Longrightarrow> ys = map f xs"
  by (induction rule: list_all2_induct) auto


text \<open>The parser's answers on the example texts.\<close>

lemma example_fromstring_rows: "example_fromstring rows_xml = Inr rows_doc"
  by (simp add: example_fromstring_def)

lemma example_fromstring_repeated: "example_fromstring repeated_xml = Inr repeated_doc"
  by (simp add: example_fromstring_def repeated_xml_def rows_xml_def)


lemma example_fromstring_mixed: "example_fromstring mixed_xml = Inr mixed_doc"
  by (simp add: example_fromstring_def mixed_xml_def norows_xml_def repeated_xml_def rows_xml_def)





section \<open>The claims\<close>

subsection \<open>C1: the prompt parameters of the built URL\<close>

text \<open>
  C1. For a prompt set with names \<open>a1..an\<close> and values \<open>v1..vn\<close> (a dict: its keys are
  distinct), the URL that \<open>_build_executequery_url\<close> returns ends with
  \<open>&prompt_uniquepromptname=\<close>, the names joined by commas in input order,
  \<open>&prompt_fieldvalue=\<close> and the values joined by commas in the same order, where a
  value that is \<open>None\<close> or empty is the empty string in its position. That URL is the one
  \<open>execute_query\<close> requests.
\<close>

theorem prompt_parameters_joined_in_order:
  assumes "distinct (map fst prompts)"
  shows "let names = join '','' (map fst prompts);
             vals = join '','' (map (\<lambda>(name, v). case v of None \<Rightarrow> [] | Some s \<Rightarrow> s) prompts);
             url = rstrip_chars ''/''
                     (base_url self @ ''/'' @ security @ ''/'' @ query_name @ ''/'' @ output_path)
                   @ ''?isconnectedquery='' @ isconnectedquery @ ''&maxrows='' @ str_int maxrows
                   @ ''&prompt_uniquepromptname='' @ names @ ''&prompt_fieldvalue='' @ vals
         in build_executequery_url self query_name prompts maxrows isconnectedquery security
              output_path = Inr url
          \<and> map req_url (sent (snd (execute_query self query_name prompts maxrows
                 isconnectedquery security output_path net)))
              = map req_url (sent net) @ [url]"
proof -
  have r: "(\<lambda>kv. or_empty (snd kv)) = (\<lambda>(name, v). case v of None \<Rightarrow> [] | Some s \<Rightarrow> s)"
    by (auto simp: or_empty_render)
  note b = build_executequery_url_distinct [OF assms, of self query_name maxrows isconnectedquery
      security output_path, unfolded r]
  show ?thesis
    unfolding Let_def using b execute_query_sent [OF b, of net] by simp
qed

theorem prompt_parameters_joined_in_order_witness:
  "distinct (map fst [(''VENDOR_STATUS'', Some ''I''), (''K'', None), (''VENDOR_ID_OFFSET'', Some '''')])
   \<and> build_executequery_url example_client ''FM_VENDOR_MASTER''
        [(''VENDOR_STATUS'', Some ''I''), (''K'', None), (''VENDOR_ID_OFFSET'', Some '''')]
        10 ''N'' ''public'' ''XMLP/NONFILE''
      = Inr ''https://h/ExecuteQuery.v1/public/FM_VENDOR_MASTER/XMLP/NONFILE?isconnectedquery=N&maxrows=10&prompt_uniquepromptname=VENDOR_STATUS,K,VENDOR_ID_OFFSET&prompt_fieldvalue=I,,''
   \<and> map req_url (sent (snd (execute_query example_client ''FM_VENDOR_MASTER''
        [(''VENDOR_STATUS'', Some ''I''), (''K'', None), (''VENDOR_ID_OFFSET'', Some '''')]
        10 ''N'' ''public'' ''XMLP/NONFILE'' (example_network 200 ''<r/>''))))
      = [''https://h/ExecuteQuery.v1/public/FM_VENDOR_MASTER/XMLP/NONFILE?isconnectedquery=N&maxrows=10&prompt_uniquepromptname=VENDOR_STATUS,K,VENDOR_ID_OFFSET&prompt_fieldvalue=I,,'']"
  using prompt_parameters_joined_in_order
    [of "[(''VENDOR_STATUS'', Some ''I''), (''K'', None), (''VENDOR_ID_OFFSET'', Some '''')]"
        example_client "''public''" "''FM_VENDOR_MASTER''" "''XMLP/NONFILE''" "''N''" 10
        "example_network 200 ''<r/>''"]
  by (simp add: example_client_def PeopleSoftClient_init_def example_network_def rstrip_chars_def
      str_int_def str_nat.simps digit_char_def Let_def)


subsection \<open>C2: the HTTP status\<close>

text \<open>
  C2. The claim: a status from 200 to 299 returns the body, every other status,
  3xx included, raises an error that carries the status code and the body. The comment
  in \<open>execute_query\<close> says the same (an error if "HTTP != 2xx"), but the check is
  \<open>raise_for_status\<close>, which raises from 400 to 599 only: on a response with status 300
  and body \<open>ORA-12345\<close> the call returns the body and raises nothing.
\<close>

theorem execute_query_returns_body_on_status_300:
  "fst (execute_query example_client ''Q'' [] 10 ''N'' ''public'' ''XMLP/NONFILE''
          (example_network 300 ''ORA-12345'')) = Inr ''ORA-12345''"
  by (simp add: execute_query_def build_executequery_url_def example_client_def
      PeopleSoftClient_init_def example_network_def requests_get_def raise_for_status_def
      dict_keys_def Let_def)


subsection \<open>C3: the two lists stay aligned\<close>

text \<open>
  C3, as amended. For a prompt set whose names and values hold no comma, the
  comma-separated name list and value list of the built URL have the same number of
  fields, field \<open>i\<close> of the name list is the \<open>i\<close>-th name and field \<open>i\<close> of the value
  list is the \<open>i\<close>-th value, an empty or \<open>None\<close> value being an empty field in its
  position. (For the empty prompt set both lists are the empty string: one empty field
  each.)
\<close>

theorem prompt_lists_aligned_without_commas:
  assumes "distinct (map fst prompts)"
      and "\<forall>(name, v) \<in> set prompts.
             CHR '','' \<notin> set name \<and> CHR '','' \<notin> set (case v of None \<Rightarrow> [] | Some s \<Rightarrow> s)"
  shows "let names = join '','' (map fst prompts);
             vals = join '','' (map (\<lambda>(name, v). case v of None \<Rightarrow> [] | Some s \<Rightarrow> s) prompts)
         in build_executequery_url self query_name prompts maxrows isconnectedquery security
              output_path
            = Inr (rstrip_chars ''/''
                     (base_url self @ ''/'' @ security @ ''/'' @ query_name @ ''/'' @ output_path)
                   @ ''?isconnectedquery='' @ isconnectedquery @ ''&maxrows='' @ str_int maxrows
                   @ ''&prompt_uniquepromptname='' @ names @ ''&prompt_fieldvalue='' @ vals)
          \<and> length (split_char (CHR '','') names) = length (split_char (CHR '','') vals)
          \<and> (prompts \<noteq> [] \<longrightarrow>
                split_char (CHR '','') names = map fst prompts
              \<and> split_char (CHR '','') vals
                  = map (\<lambda>(name, v). case v of None \<Rightarrow> [] | Some s \<Rightarrow> s) prompts)"
proof -
  let ?render = "\<lambda>(name :: string, v). case v of None \<Rightarrow> [] | Some s \<Rightarrow> s"
  have r: "(\<lambda>kv. or_empty (snd kv)) = ?render"
    by (auto simp: or_empty_render)
  note b = build_executequery_url_distinct [OF assms(1), of self query_name maxrows
      isconnectedquery security output_path, unfolded r]
  have n: "\<forall>x \<in> set (map fst prompts). CHR '','' \<notin> set x" using assms(2) by auto
  have v: "\<forall>x \<in> set (map ?render prompts). CHR '','' \<notin> set x" using assms(2) by auto
  have sn: "split_char (CHR '','') (join '','' (map fst prompts))
      = (if prompts = [] then [[]] else map fst prompts)"
    using split_char_join_fields [OF n] by simp
  have sv: "split_char (CHR '','') (join '','' (map ?render prompts))
      = (if prompts = [] then [[]] else map ?render prompts)"
    using split_char_join_fields [OF v] by simp
  show ?thesis
    unfolding Let_def sn sv using b by simp
qed

theorem prompt_lists_aligned_without_commas_witness:
  "distinct (map fst [(''VENDOR_STATUS'', Some ''I''), (''K'', None), (''VENDOR_ID_OFFSET'', Some '''')])
   \<and> list_all (\<lambda>(name, v). CHR '','' \<notin> set name
          \<and> CHR '','' \<notin> set (case v of None \<Rightarrow> [] | Some s \<Rightarrow> s))
        [(''VENDOR_STATUS'', Some ''I''), (''K'', None), (''VENDOR_ID_OFFSET'', Some '''')]
   \<and> build_executequery_url example_client ''FM_VENDOR_MASTER''
        [(''VENDOR_STATUS'', Some ''I''), (''K'', None), (''VENDOR_ID_OFFSET'', Some '''')]
        10 ''N'' ''public'' ''XMLP/NONFILE''
      = Inr (''https://h/ExecuteQuery.v1/public/FM_VENDOR_MASTER/XMLP/NONFILE?isconnectedquery=N&maxrows=10''
             @ ''&prompt_uniquepromptname='' @ ''VENDOR_STATUS,K,VENDOR_ID_OFFSET''
             @ ''&prompt_fieldvalue='' @ ''I,,'')
   \<and> split_char (CHR '','') ''VENDOR_STATUS,K,VENDOR_ID_OFFSET''
       = [''VENDOR_STATUS'', ''K'', ''VENDOR_ID_OFFSET'']
   \<and> split_char (CHR '','') ''I,,'' = [''I'', '''', '''']"
  using prompt_lists_aligned_without_commas
    [where prompts = "[(''VENDOR_STATUS'', Some ''I''), (''K'', None), (''VENDOR_ID_OFFSET'', Some '''')]"
       and self = example_client and security = "''public''"
       and query_name = "''FM_VENDOR_MASTER''" and output_path = "''XMLP/NONFILE''"
       and isconnectedquery = "''N''" and maxrows = 10]
  by (simp add: example_client_def PeopleSoftClient_init_def rstrip_chars_def
      str_int_def str_nat.simps digit_char_def Let_def)


text \<open>
  The claim as stated, for all name and value strings, fails: commas are emitted
  unescaped, so the one prompt \<open>A,B\<close> with value \<open>1\<close> gives a name list of two fields
  and a value list of one.
\<close>

theorem prompt_lists_misaligned_by_comma:
  "build_executequery_url example_client ''Q'' [(''A,B'', Some ''1'')] 10 ''N'' ''public''
     ''XMLP/NONFILE''
   = Inr (''https://h/ExecuteQuery.v1/public/Q/XMLP/NONFILE?isconnectedquery=N&maxrows=10''
          @ ''&prompt_uniquepromptname='' @ ''A,B'' @ ''&prompt_fieldvalue='' @ ''1'')
   \<and> split_char (CHR '','') ''A,B'' = [''A'', ''B'']
   \<and> split_char (CHR '','') ''1'' = [''1'']
   \<and> length (split_char (CHR '','') ''A,B'') \<noteq> length (split_char (CHR '','') ''1'')"
  by (simp add: build_executequery_url_def example_client_def PeopleSoftClient_init_def
      rstrip_chars_def dict_keys_def dict_getitem_def or_empty_def str_int_def str_nat.simps
      digit_char_def Let_def)


subsection \<open>C4: the path portion\<close>

text \<open>
  C4. The built URL is a path, a question mark and the query string. The path is
  \<open>{base}/{security}/{query_name}/{output_path}\<close> with the slashes at its end removed: the
  composed string is the path followed by slashes only, and the path does not end in a
  slash. When none of the four parts holds a question mark, the path is the URL up to its
  first question mark. The instance of the specification (base
  \<open>https://h/ExecuteQuery.v1\<close>, query \<open>Q\<close>, security \<open>public\<close>, output path
  \<open>XMLP/NONFILE\<close>) and an empty output path are evaluated after the theorem.
\<close>

theorem path_portion_of_built_url:
  "\<exists>path k rest.
      build_executequery_url self query_name prompts maxrows isconnectedquery security output_path
        = Inr (path @ ''?'' @ rest)
    \<and> path = rstrip_chars ''/''
               (base_url self @ ''/'' @ security @ ''/'' @ query_name @ ''/'' @ output_path)
    \<and> base_url self @ ''/'' @ security @ ''/'' @ query_name @ ''/'' @ output_path
        = path @ replicate k (CHR ''/'')
    \<and> (path = [] \<or> last path \<noteq> CHR ''/'')
    \<and> (CHR ''?'' \<notin> set (base_url self @ security @ query_name @ output_path)
         \<longrightarrow> takeWhile (\<lambda>c. c \<noteq> CHR ''?'') (path @ ''?'' @ rest) = path)"
proof -
  let ?full = "base_url self @ ''/'' @ security @ ''/'' @ query_name @ ''/'' @ output_path"
  let ?path = "rstrip_chars ''/'' ?full"
  obtain rest where b: "build_executequery_url self query_name prompts maxrows isconnectedquery
      security output_path = Inr (?path @ ''?'' @ rest)"
    using build_executequery_url_total by blast
  obtain k where k: "?full = ?path @ replicate k (CHR ''/'')"
    using rstrip_decomp [of ?full "CHR ''/''"] by blast
  have nt: "?path = [] \<or> last ?path \<noteq> CHR ''/''" by (rule rstrip_no_trailing)
  have tw: "takeWhile (\<lambda>c. c \<noteq> CHR ''?'') (?path @ ''?'' @ rest) = ?path"
    if "CHR ''?'' \<notin> set (base_url self @ security @ query_name @ output_path)"
  proof -
    from that have "CHR ''?'' \<notin> set ?full" by simp
    then have "CHR ''?'' \<notin> set ?path" using set_rstrip_subset [of "''/''" ?full] by blast
    then show ?thesis using takeWhile_before_first [of "CHR ''?''" ?path rest] by simp
  qed
  from b k nt tw show ?thesis by blast
qed

theorem path_portion_of_built_url_witness:
  "CHR ''?'' \<notin> set (base_url example_client @ ''public'' @ ''Q'' @ ''XMLP/NONFILE'')
   \<and> (\<exists>rest. build_executequery_url example_client ''Q'' [] 10 ''N'' ''public'' ''XMLP/NONFILE''
         = Inr (''https://h/ExecuteQuery.v1/public/Q/XMLP/NONFILE'' @ ''?'' @ rest)
         \<and> takeWhile (\<lambda>c. c \<noteq> CHR ''?'')
              (''https://h/ExecuteQuery.v1/public/Q/XMLP/NONFILE'' @ ''?'' @ rest)
            = ''https://h/ExecuteQuery.v1/public/Q/XMLP/NONFILE'')
   \<and> (\<exists>rest. build_executequery_url example_client ''Q'' [] 10 ''N'' ''public'' ''''
         = Inr (''https://h/ExecuteQuery.v1/public/Q'' @ ''?'' @ rest))"
proof -
  have b: "base_url example_client = ''https://h/ExecuteQuery.v1''"
    by (simp add: example_client_def PeopleSoftClient_init_def rstrip_chars_def)
  have q: "CHR ''?'' \<notin> set (base_url example_client @ ''public'' @ ''Q'' @ ''XMLP/NONFILE'')"
    by (simp add: b)
  have p1: "rstrip_chars ''/'' (base_url example_client @ ''/'' @ ''public'' @ ''/'' @ ''Q'' @ ''/''
      @ ''XMLP/NONFILE'') = ''https://h/ExecuteQuery.v1/public/Q/XMLP/NONFILE''"
    by (simp add: b rstrip_chars_def)
  have p2: "rstrip_chars ''/'' (base_url example_client @ ''/'' @ ''public'' @ ''/'' @ ''Q'' @ ''/''
      @ '''') = ''https://h/ExecuteQuery.v1/public/Q''"
    by (simp add: b rstrip_chars_def)
  from path_portion_of_built_url
    [of example_client "''Q''" "[]" 10 "''N''" "''public''" "''XMLP/NONFILE''"] q
  have c1: "\<exists>rest. build_executequery_url example_client ''Q'' [] 10 ''N'' ''public'' ''XMLP/NONFILE''
         = Inr (''https://h/ExecuteQuery.v1/public/Q/XMLP/NONFILE'' @ ''?'' @ rest)
         \<and> takeWhile (\<lambda>c. c \<noteq> CHR ''?'')
              (''https://h/ExecuteQuery.v1/public/Q/XMLP/NONFILE'' @ ''?'' @ rest)
            = ''https://h/ExecuteQuery.v1/public/Q/XMLP/NONFILE''"
    unfolding p1 by blast
  from path_portion_of_built_url [of example_client "''Q''" "[]" 10 "''N''" "''public''" "''''"]
  have c2: "\<exists>rest. build_executequery_url example_client ''Q'' [] 10 ''N'' ''public'' ''''
         = Inr (''https://h/ExecuteQuery.v1/public/Q'' @ ''?'' @ rest)"
    unfolding p2 by blast
  from q c1 c2 show ?thesis by blast
qed


subsection \<open>C5: which elements are rows\<close>




subsection \<open>C6: the fields of a row\<close>

text \<open>
  C6, as amended. For every matched row element, the keys of its mapping are exactly the
  local names of its immediate children, every entry is the local name of an immediate
  child with the trimmed text that stands before the first sub-element of that child
  (\<open>child.text\<close>), and when the children have distinct names the mapping is the list of
  these pairs in document order. For a child without sub-elements that text is the whole
  text content of the child. Trimming removes leading and trailing whitespace only;
  absent, empty or whitespace-only text gives the empty string, and the key is present.
\<close>

theorem row_mapping_from_immediate_children:
  assumes "fromstring xml_text = Inr root" and "list_all xml_names_ok (iter root)"
  shows "(\<exists>rows. parse_executequery_xml fromstring xml_text = Inr rows
          \<and> list_all2 (\<lambda>node row.
                fst ` set row = el_local ` set (el_children node)
              \<and> (\<forall>kv \<in> set row. \<exists>c \<in> set (el_children node).
                    kv = (el_local c, strip (or_empty (el_text c))))
              \<and> (distinct (map el_local (el_children node))
                   \<longrightarrow> row = map (\<lambda>c. (el_local c, strip (or_empty (el_text c))))
                                 (el_children node)))
              (filter (\<lambda>e. el_local e = ''row'') (iter root)) rows)
       \<and> (\<forall>c. el_children c = [] \<longrightarrow> or_empty (el_text c) = spec_text_content c)
       \<and> (\<forall>s. (\<forall>c \<in> set s. isspace c) \<longrightarrow> strip s = [])
       \<and> (\<forall>s. \<exists>a b. s = a @ strip s @ b \<and> (\<forall>c \<in> set a. isspace c) \<and> (\<forall>c \<in> set b. isspace c))
       \<and> (\<forall>s. strip s = [] \<or> (\<not> isspace (hd (strip s)) \<and> \<not> isspace (last (strip s))))"
proof -
  let ?nodes = "filter (\<lambda>e. el_local e = ''row'') (iter root)"
  let ?row = "\<lambda>node. row_fields (el_children node) []"
  let ?field = "\<lambda>c. (el_local c, strip (or_empty (el_text c)))"
  have "fst ` set (?row node) = el_local ` set (el_children node)
      \<and> (\<forall>kv \<in> set (?row node). \<exists>c \<in> set (el_children node). kv = ?field c)
      \<and> (distinct (map el_local (el_children node))
           \<longrightarrow> ?row node = map ?field (el_children node))"
    if "node \<in> set ?nodes" for node
  proof -
    have ok: "\<forall>c \<in> set (el_children node). xml_names_ok c"
      using assms(2) that by (rule row_nodes_ok)
    have "fst ` set (?row node) = el_local ` set (el_children node)"
      using row_fields_keys [OF ok, of "[]"] by simp
    moreover have "\<forall>kv \<in> set (?row node). \<exists>c \<in> set (el_children node). kv = ?field c"
      using row_fields_entries [OF ok, of "[]"] unfolding child_field_fun by simp
    moreover have "?row node = map ?field (el_children node)"
      if "distinct (map el_local (el_children node))"
      using row_fields_fresh [OF ok that, of "[]"] unfolding child_field_fun by simp
    ultimately show ?thesis by blast
  qed
  then have "list_all2 (\<lambda>node row.
                fst ` set row = el_local ` set (el_children node)
              \<and> (\<forall>kv \<in> set row. \<exists>c \<in> set (el_children node). kv = ?field c)
              \<and> (distinct (map el_local (el_children node))
                   \<longrightarrow> row = map ?field (el_children node)))
              ?nodes (map ?row ?nodes)"
    unfolding list_all2_map_same by blast
  with parse_executequery_xml_rows' [of fromstring xml_text root, OF assms]
    leaf_text_content strip_all_space strip_decomp strip_ends
  show ?thesis by blast
qed

theorem row_mapping_from_immediate_children_witness:
  "example_fromstring rows_xml = Inr rows_doc
   \<and> list_all xml_names_ok (iter rows_doc)
   \<and> list_all (\<lambda>node. distinct (map el_local (el_children node)))
        (filter (\<lambda>e. el_local e = ''row'') (iter rows_doc))
   \<and> parse_executequery_xml example_fromstring rows_xml
       = Inr (map (\<lambda>node. map (\<lambda>c. (el_local c, strip (or_empty (el_text c)))) (el_children node))
                (filter (\<lambda>e. el_local e = ''row'') (iter rows_doc)))
   \<and> example_fromstring repeated_xml = Inr repeated_doc
   \<and> list_all xml_names_ok (iter repeated_doc)
   \<and> parse_executequery_xml example_fromstring repeated_xml
       = Inr [[(''A'', ''2''), (''B'', ''''), (''C'', '''')]]
   \<and> el_children (Element None ''B'' (Some (''  '' @ [CHR 0x0A] @ ''  '')) None []) = []
   \<and> or_empty (el_text (Element None ''B'' (Some (''  '' @ [CHR 0x0A] @ ''  '')) None []))
       = spec_text_content (Element None ''B'' (Some (''  '' @ [CHR 0x0A] @ ''  '')) None [])
   \<and> list_all isspace (''  '' @ [CHR 0x0A] @ ''  '')
   \<and> strip (''  '' @ [CHR 0x0A] @ ''  '') = ''''"
proof -
  let ?nodes = "filter (\<lambda>e. el_local e = ''row'') (iter rows_doc)"
  let ?field = "\<lambda>c. (el_local c, strip (or_empty (el_text c)))"
  let ?b = "Element None ''B'' (Some (''  '' @ [CHR 0x0A] @ ''  '')) None []"
  note h1 = example_fromstring_rows
  have h2: "list_all xml_names_ok (iter rows_doc)" by (simp add: rows_doc_def xml_names_ok_def)
  have d: "list_all (\<lambda>node. distinct (map el_local (el_children node))) ?nodes"
    by (simp add: rows_doc_def)
  note t = row_mapping_from_immediate_children [of example_fromstring rows_xml rows_doc, OF h1 h2]
  then obtain rows where r: "parse_executequery_xml example_fromstring rows_xml = Inr rows"
    and l: "list_all2 (\<lambda>node row.
                fst ` set row = el_local ` set (el_children node)
              \<and> (\<forall>kv \<in> set row. \<exists>c \<in> set (el_children node). kv = ?field c)
              \<and> (distinct (map el_local (el_children node))
                   \<longrightarrow> row = map ?field (el_children node))) ?nodes rows"
    by blast
  from l have "list_all2 (\<lambda>node row. distinct (map el_local (el_children node))
      \<longrightarrow> row = map ?field (el_children node)) ?nodes rows"
    by (rule list_all2_mono) blast
  then have "rows = map (\<lambda>node. map ?field (el_children node)) ?nodes"
    using d by (rule list_all2_determined)
  with r have c4: "parse_executequery_xml example_fromstring rows_xml
       = Inr (map (\<lambda>node. map ?field (el_children node)) ?nodes)" by simp
  note h3 = example_fromstring_repeated
  have h4: "list_all xml_names_ok (iter repeated_doc)"
    by (simp add: repeated_doc_def xml_names_ok_def)
  have c7: "parse_executequery_xml example_fromstring repeated_xml
       = Inr [[(''A'', ''2''), (''B'', ''''), (''C'', '''')]]"
    by (simp add: parse_executequery_xml_def h3)
       (simp add: repeated_doc_def tag_def strip_ns_def strip_def isspace_def or_empty_def)
  have l1: "el_children ?b = []" by simp
  from t l1 have l2: "or_empty (el_text ?b) = spec_text_content ?b" by blast
  have s1: "list_all isspace (''  '' @ [CHR 0x0A] @ ''  '')" by (simp add: isspace_def)
  from t s1 have s2: "strip (''  '' @ [CHR 0x0A] @ ''  '') = ''''"
    by (simp add: list_all_iff)
  show ?thesis
    by (intro conjI)
       (rule h1, rule h2, rule d, rule c4, rule h3, rule h4, rule c7, rule l1, rule l2,
        rule s1, rule s2)
qed


text \<open>
  The claim as stated, with the value the trimmed text content of the child, fails for a
  child that has a sub-element: in \<open><B>a<i>b</i>c</B>\<close> the text content of \<open>B\<close> is
  \<open>abc\<close>, and the row maps \<open>B\<close> to \<open>a\<close>.
\<close>

theorem field_value_is_leading_text_not_text_content:
  "example_fromstring mixed_xml = Inr mixed_doc
   \<and> parse_executequery_xml example_fromstring mixed_xml = Inr [[(''B'', ''a'')]]
   \<and> el_children (Element None ''row'' None None [mixed_field]) = [mixed_field]
   \<and> el_local mixed_field = ''B''
   \<and> strip (spec_text_content mixed_field) = ''abc''
   \<and> strip (spec_text_content mixed_field) \<noteq> ''a''"
proof -
  have p: "parse_executequery_xml example_fromstring mixed_xml = Inr [[(''B'', ''a'')]]"
    by (simp add: parse_executequery_xml_def example_fromstring_mixed)
       (simp add: mixed_doc_def mixed_field_def tag_def strip_ns_def strip_def isspace_def
          or_empty_def)
  have s: "strip (spec_text_content mixed_field) = ''abc''"
    by (simp add: mixed_field_def strip_def isspace_def)
  have n: "strip (spec_text_content mixed_field) \<noteq> ''a''" by (simp add: s)
  have l: "el_local mixed_field = ''B''" by (simp add: mixed_field_def)
  show ?thesis using example_fromstring_mixed p s n l by simp
qed


subsection \<open>C7: repeated field names\<close>

text \<open>
  C7. When several immediate children of a row share a local name, parsing still
  succeeds, the row's mapping has that name once, and its value is the trimmed text of
  the last such child in document order.
\<close>

theorem repeated_field_last_write_wins:
  assumes "fromstring xml_text = Inr root" and "list_all xml_names_ok (iter root)"
  shows "\<exists>rows. parse_executequery_xml fromstring xml_text = Inr rows
          \<and> list_all2 (\<lambda>node row.
                distinct (map fst row)
              \<and> (\<forall>pre c post.
                    el_children node = pre @ c # post \<and> el_local c \<notin> el_local ` set post
                    \<longrightarrow> map_of row (el_local c) = Some (strip (or_empty (el_text c)))))
              (filter (\<lambda>e. el_local e = ''row'') (iter root)) rows"
proof -
  let ?nodes = "filter (\<lambda>e. el_local e = ''row'') (iter root)"
  let ?row = "\<lambda>node. row_fields (el_children node) []"
  have "distinct (map fst (?row node))
      \<and> (\<forall>pre c post.
            el_children node = pre @ c # post \<and> el_local c \<notin> el_local ` set post
            \<longrightarrow> map_of (?row node) (el_local c) = Some (strip (or_empty (el_text c))))"
    if "node \<in> set ?nodes" for node
  proof -
    have ok: "\<forall>c \<in> set (el_children node). xml_names_ok c"
      using assms(2) that by (rule row_nodes_ok)
    have "distinct (map fst (?row node))" by (rule row_fields_distinct) simp
    moreover have "map_of (?row node) (el_local c) = Some (strip (or_empty (el_text c)))"
      if "el_children node = pre @ c # post" "el_local c \<notin> el_local ` set post" for pre c post
      using row_fields_last_wins [of pre c post] ok that by (simp add: child_field_def)
    ultimately show ?thesis by blast
  qed
  then have "list_all2 (\<lambda>node row.
                distinct (map fst row)
              \<and> (\<forall>pre c post.
                    el_children node = pre @ c # post \<and> el_local c \<notin> el_local ` set post
                    \<longrightarrow> map_of row (el_local c) = Some (strip (or_empty (el_text c)))))
              ?nodes (map ?row ?nodes)"
    unfolding list_all2_map_same by blast
  with parse_executequery_xml_rows' [of fromstring xml_text root, OF assms] show ?thesis by blast
qed

theorem repeated_field_last_write_wins_witness:
  "example_fromstring repeated_xml = Inr repeated_doc
   \<and> list_all xml_names_ok (iter repeated_doc)
   \<and> (\<exists>rows. parse_executequery_xml example_fromstring repeated_xml = Inr rows
         \<and> map (\<lambda>row. map_of row ''A'') rows = [Some ''2''])"
proof -
  let ?a1 = "Element None ''A'' (Some ''1'') None []"
  let ?b = "Element None ''B'' (Some (''  '' @ [CHR 0x0A] @ ''  '')) None []"
  let ?c = "Element None ''C'' None None []"
  let ?a2 = "Element None ''A'' (Some '' 2 '') None [Element None ''D'' (Some ''9'') None []]"
  let ?row = "Element None ''row'' None None [?a1, ?b, ?c, ?a2]"
  note h1 = example_fromstring_repeated
  have h2: "list_all xml_names_ok (iter repeated_doc)"
    by (simp add: repeated_doc_def xml_names_ok_def)
  have nodes: "filter (\<lambda>e. el_local e = ''row'') (iter repeated_doc) = [?row]"
    by (simp add: repeated_doc_def)
  from repeated_field_last_write_wins [of example_fromstring repeated_xml repeated_doc, OF h1 h2]
  obtain rows where r: "parse_executequery_xml example_fromstring repeated_xml = Inr rows"
    and l: "list_all2 (\<lambda>node row.
                distinct (map fst row)
              \<and> (\<forall>pre c post.
                    el_children node = pre @ c # post \<and> el_local c \<notin> el_local ` set post
                    \<longrightarrow> map_of row (el_local c) = Some (strip (or_empty (el_text c)))))
              [?row] rows"
    unfolding nodes by blast
  from l obtain row where rows: "rows = [row]"
    and w: "\<forall>pre c post.
                    el_children ?row = pre @ c # post \<and> el_local c \<notin> el_local ` set post
                    \<longrightarrow> map_of row (el_local c) = Some (strip (or_empty (el_text c)))"
    by (auto simp: list_all2_Cons1)
  from w have "el_children ?row = [?a1, ?b, ?c] @ ?a2 # [] \<and> el_local ?a2 \<notin> el_local ` set []
      \<longrightarrow> map_of row (el_local ?a2) = Some (strip (or_empty (el_text ?a2)))"
    by blast
  then have "map_of row ''A'' = Some ''2''"
    by (simp add: or_empty_def strip_def isspace_def)
  with r rows h1 h2 show ?thesis by simp
qed


subsection \<open>C8: malformed input and documents without rows\<close>






subsection \<open>C9: authentication\<close>

text \<open>
  C9, as amended. \<open>execute_query\<close> sends one request. Its \<open>auth\<close> is the configured
  credential pair (HTTP Basic Authentication), or none when no pair is configured. Its
  cookies are \<open>PS_TOKEN\<close> with the configured session token when that token is a
  non-empty string, and no cookie when no token is configured or the token is the empty
  string.
\<close>

theorem authentication_of_request:
  assumes "build_executequery_url self query_name prompts maxrows isconnectedquery security
             output_path = Inr url"
  shows "sent (snd (execute_query self query_name prompts maxrows isconnectedquery security
                      output_path net))
       = sent net @
         [\<lparr> req_url = url,
            req_auth = auth self,
            req_cookies = (case ps_token self of
                             None \<Rightarrow> []
                           | Some t \<Rightarrow> if t = [] then [] else [(''PS_TOKEN'', t)]),
            req_verify = verify self,
            req_timeout = timeout self \<rparr>]"
  using assms by (rule execute_query_sent)

theorem authentication_of_request_witness:
  "build_executequery_url
     (PeopleSoftClient_init ''https://h/ExecuteQuery.v1'' (Some (''PSREST'', ''pw'')) (Some ''tok'')
        (VerifyBool False) 60) ''Q'' [] 10 ''N'' ''public'' ''XMLP/NONFILE''
   = Inr ''https://h/ExecuteQuery.v1/public/Q/XMLP/NONFILE?isconnectedquery=N&maxrows=10&prompt_uniquepromptname=&prompt_fieldvalue=''
   \<and> sent (snd (execute_query
       (PeopleSoftClient_init ''https://h/ExecuteQuery.v1'' (Some (''PSREST'', ''pw'')) (Some ''tok'')
          (VerifyBool False) 60) ''Q'' [] 10 ''N'' ''public'' ''XMLP/NONFILE''
       (example_network 200 ''<r/>'')))
     = [\<lparr> req_url = ''https://h/ExecuteQuery.v1/public/Q/XMLP/NONFILE?isconnectedquery=N&maxrows=10&prompt_uniquepromptname=&prompt_fieldvalue='',
          req_auth = Some (''PSREST'', ''pw''),
          req_cookies = [(''PS_TOKEN'', ''tok'')],
          req_verify = VerifyBool False,
          req_timeout = 60 \<rparr>]"
proof -
  have b: "build_executequery_url
     (PeopleSoftClient_init ''https://h/ExecuteQuery.v1'' (Some (''PSREST'', ''pw'')) (Some ''tok'')
        (VerifyBool False) 60) ''Q'' [] 10 ''N'' ''public'' ''XMLP/NONFILE''
   = Inr ''https://h/ExecuteQuery.v1/public/Q/XMLP/NONFILE?isconnectedquery=N&maxrows=10&prompt_uniquepromptname=&prompt_fieldvalue=''"
    by (simp add: build_executequery_url_def PeopleSoftClient_init_def rstrip_chars_def
        dict_keys_def str_int_def str_nat.simps digit_char_def Let_def)
  from authentication_of_request [OF b, of "example_network 200 ''<r/>''"] b
  show ?thesis by (simp add: PeopleSoftClient_init_def example_network_def)
qed


text \<open>
  The claim as stated, for every token string including the empty one, fails: the guard
  \<open>if self.ps_token\<close> is false for the empty string, and the request carries no cookie.
\<close>

theorem empty_session_token_sends_no_cookie:
  "map req_cookies (sent (snd (execute_query
       (PeopleSoftClient_init ''https://h/ExecuteQuery.v1'' None (Some '''') (VerifyBool True) 60)
       ''Q'' [] 10 ''N'' ''public'' ''XMLP/NONFILE'' (example_network 200 ''<r/>'')))) = [[]]"
  by (simp add: execute_query_def build_executequery_url_def PeopleSoftClient_init_def
      example_network_def requests_get_def raise_for_status_def dict_keys_def Let_def)


subsection \<open>C10: trailing slashes of the base URL\<close>

text \<open>
  C10. The constructor removes all slashes at the end of \<open>base_url\<close>: what it stores does
  not end in a slash and differs from the argument by trailing slashes only. Two
  arguments that differ only in trailing slashes give the same stored base URL, equal
  clients when the other arguments agree, and the same result of
  \<open>_build_executequery_url\<close> on the same remaining inputs.
\<close>

theorem trailing_slashes_of_base_url_ignored:
  assumes "b1 = core @ replicate m (CHR ''/'')" and "b2 = core @ replicate n (CHR ''/'')"
  shows "base_url (PeopleSoftClient_init b1 a1 t1 v1 tm1) = base_url (PeopleSoftClient_init b2 a2 t2 v2 tm2)
       \<and> PeopleSoftClient_init b1 a t v tm = PeopleSoftClient_init b2 a t v tm
       \<and> build_executequery_url (PeopleSoftClient_init b1 a1 t1 v1 tm1) query_name prompts maxrows
            isconnectedquery security output_path
         = build_executequery_url (PeopleSoftClient_init b2 a2 t2 v2 tm2) query_name prompts maxrows
            isconnectedquery security output_path
       \<and> (\<exists>k. b1 = base_url (PeopleSoftClient_init b1 a1 t1 v1 tm1) @ replicate k (CHR ''/''))
       \<and> (base_url (PeopleSoftClient_init b1 a1 t1 v1 tm1) = []
            \<or> last (base_url (PeopleSoftClient_init b1 a1 t1 v1 tm1)) \<noteq> CHR ''/'')"
proof -
  have e: "rstrip_chars ''/'' b1 = rstrip_chars ''/'' b2"
    unfolding assms by (simp only: rstrip_replicate)
  have "\<exists>k. b1 = rstrip_chars ''/'' b1 @ replicate k (CHR ''/'')" by (rule rstrip_decomp)
  moreover have "rstrip_chars ''/'' b1 = [] \<or> last (rstrip_chars ''/'' b1) \<noteq> CHR ''/''"
    by (rule rstrip_no_trailing)
  ultimately show ?thesis
    using e by (simp add: PeopleSoftClient_init_def build_executequery_url_def)
qed

theorem trailing_slashes_of_base_url_ignored_witness:
  "''https://h/ExecuteQuery.v1//'' = ''https://h/ExecuteQuery.v1'' @ replicate 2 (CHR ''/'')
   \<and> ''https://h/ExecuteQuery.v1'' = ''https://h/ExecuteQuery.v1'' @ replicate 0 (CHR ''/'')
   \<and> base_url (PeopleSoftClient_init ''https://h/ExecuteQuery.v1//'' None None (VerifyBool True) 60)
       = ''https://h/ExecuteQuery.v1''
   \<and> build_executequery_url
        (PeopleSoftClient_init ''https://h/ExecuteQuery.v1//'' None None (VerifyBool True) 60)
        ''Q'' [(''A'', Some ''1'')] 10 ''N'' ''public'' ''XMLP/NONFILE''
     = build_executequery_url
        (PeopleSoftClient_init ''https://h/ExecuteQuery.v1'' (Some (''u'', ''p'')) None (VerifyBool False) 5)
        ''Q'' [(''A'', Some ''1'')] 10 ''N'' ''public'' ''XMLP/NONFILE''"
proof -
  have h1: "''https://h/ExecuteQuery.v1//'' = ''https://h/ExecuteQuery.v1'' @ replicate 2 (CHR ''/'')"
    by (simp add: numeral_2_eq_2)
  have h2: "''https://h/ExecuteQuery.v1'' = ''https://h/ExecuteQuery.v1'' @ replicate 0 (CHR ''/'')"
    by simp
  have c3: "base_url (PeopleSoftClient_init ''https://h/ExecuteQuery.v1//'' None None
      (VerifyBool True) 60) = ''https://h/ExecuteQuery.v1''"
    by (simp add: PeopleSoftClient_init_def rstrip_chars_def)
  from trailing_slashes_of_base_url_ignored [OF h1 h2,
      of None None "VerifyBool True" 60 "Some (''u'', ''p'')" None "VerifyBool False" 5
         None None "VerifyBool True" 60 "''Q''" "[(''A'', Some ''1'')]" 10 "''N''" "''public''"
         "''XMLP/NONFILE''"]
  have c4: "build_executequery_url
        (PeopleSoftClient_init ''https://h/ExecuteQuery.v1//'' None None (VerifyBool True) 60)
        ''Q'' [(''A'', Some ''1'')] 10 ''N'' ''public'' ''XMLP/NONFILE''
     = build_executequery_url
        (PeopleSoftClient_init ''https://h/ExecuteQuery.v1'' (Some (''u'', ''p'')) None (VerifyBool False) 5)
        ''Q'' [(''A'', Some ''1'')] 10 ''N'' ''public'' ''XMLP/NONFILE''"
    by (elim conjE)
  show ?thesis
    by (intro conjI) (rule h1, rule h2, rule c3, rule c4)
qed

end
